theory Spec2Isabelle
  imports Complex_Main "HOL-Library.Word" "HOL-Library.Log_Nat"
begin

unbundle bit_operations_syntax

section \<open>Omnivocal audio capture: data model\<close>

text \<open>
  The development embeds \<^verbatim>\<open>src/omnivocal/audio.py\<close> (class \<^verbatim>\<open>Recorder\<close>, the nested
  \<^verbatim>\<open>callback\<close>, \<^verbatim>\<open>_write_wav\<close>, \<^verbatim>\<open>_float_to_pcm16\<close>) and the recording part of
  \<^verbatim>\<open>_command_once\<close> in \<^verbatim>\<open>src/omnivocal/cli.py\<close>.

  Numbers. Python \<^verbatim>\<open>int\<close> is \<open>int\<close>. A Python \<^verbatim>\<open>float\<close> (IEEE 754 binary64) and a numpy
  \<^verbatim>\<open>float32\<close> (binary32) are the rational numbers they denote (\<open>rat\<close>). Every float operation
  of the source is the exact operation followed by rounding to the nearest value of its format,
  ties to even (\<open>round_double\<close>, \<open>round_float32\<close>), subnormal range included. Outside the model:
  NaN, the infinities and the sign of zero; a result beyond the largest finite value of the format
  is kept as the rounded rational. The conversion of an \<^verbatim>\<open>int\<close> too large for a \<^verbatim>\<open>float\<close> raises
  \<^verbatim>\<open>OverflowError\<close>, as in Python.
\<close>

type_synonym pyfloat = rat
type_synonym byte = "8 word"

text \<open>\<^verbatim>\<open>indata\<close>: a two-dimensional array with one row per sample instant and one column per
  channel; \<^verbatim>\<open>frames\<close> is the Python list of such arrays.\<close>

type_synonym ndarray = "pyfloat list list"

datatype exn =
    AudioError string
  | CallbackStop
  | VadError
  | IndexError
  | ZeroDivisionError
  | OverflowError
  | PortAudioError string
  | KeyboardInterrupt

text \<open>\<^verbatim>\<open>except Exception\<close> catches every exception class derived from \<^verbatim>\<open>Exception\<close>.
  \<^verbatim>\<open>sounddevice.CallbackStop\<close> is declared \<^verbatim>\<open>class CallbackStop(Exception)\<close>;
  \<^verbatim>\<open>KeyboardInterrupt\<close> derives from \<^verbatim>\<open>BaseException\<close> only.\<close>

fun is_Exception :: "exn \<Rightarrow> bool" where
  "is_Exception KeyboardInterrupt = False"
| "is_Exception _ = True"

record RecordingConfig =
  sample_rate :: int
  channels :: int
  max_seconds :: int
  temp_dir :: string

record VadConfig =
  enabled :: bool
  silence_ms_to_stop :: int
  aggressiveness :: int

text \<open>\<^verbatim>\<open>webrtcvad.Vad.is_speech(pcm16, sample_rate)\<close> is third-party code: a function of the
  PCM bytes and the sample rate that returns a boolean or raises (\<open>None\<close>). What it raises
  (\<^verbatim>\<open>webrtcvad.Error\<close>, \<^verbatim>\<open>TypeError\<close>, ...) derives from \<^verbatim>\<open>Exception\<close>; \<open>VadError\<close> stands
  for it.\<close>

type_synonym vad = "byte list \<Rightarrow> int \<Rightarrow> bool option"

record Recorder =
  recording_config :: RecordingConfig
  vad_config :: VadConfig
  vad :: "vad option"

subsection \<open>Float operations\<close>

text \<open>Rounding to the nearest integer, ties to even.\<close>

definition round_half_even :: "rat \<Rightarrow> int" where
  "round_half_even y =
     (let f = \<lfloor>y\<rfloor>; r = y - of_int f
      in if r < 1 / 2 then f else if 1 / 2 < r then f + 1 else if even f then f else f + 1)"

text \<open>The spacing of the binary floating-point numbers with \<open>p\<close> significant bits around \<open>x\<close>:
  \<open>2 ^ (e - p)\<close> where \<open>2 ^ (e - 1) \<le> \<bar>x\<bar> < 2 ^ e\<close>. The exponent is read off the bit length of
  \<open>\<lfloor>\<bar>x\<bar>\<rfloor>\<close> when \<open>1 \<le> \<bar>x\<bar>\<close> and off that of \<open>\<lceil>1 / \<bar>x\<bar>\<rceil> - 1\<close> otherwise. In a format whose
  smallest positive number is \<open>1 / 2 ^ d\<close> the spacing is never below that number.\<close>

definition normal_ulp :: "nat \<Rightarrow> rat \<Rightarrow> rat" where
  "normal_ulp p x =
     (if 1 \<le> \<bar>x\<bar> then 2 ^ nat (bitlen \<lfloor>\<bar>x\<bar>\<rfloor>) / 2 ^ p
      else 2 / (2 ^ nat (bitlen (\<lceil>1 / \<bar>x\<bar>\<rceil> - 1)) * 2 ^ p))"

definition ulp :: "nat \<Rightarrow> nat \<Rightarrow> rat \<Rightarrow> rat" where
  "ulp p d x = max (normal_ulp p x) (1 / 2 ^ d)"

definition round_to :: "nat \<Rightarrow> nat \<Rightarrow> rat \<Rightarrow> rat" where
  "round_to p d x = of_int (round_half_even (x / ulp p d x)) * ulp p d x"

text \<open>binary64: 53 significant bits, smallest positive number \<open>2 ^ -1074\<close>;
  binary32: 24 significant bits, smallest positive number \<open>2 ^ -149\<close>.\<close>

definition round_double :: "rat \<Rightarrow> pyfloat" where
  "round_double x = round_to 53 1074 x"

definition round_float32 :: "rat \<Rightarrow> pyfloat" where
  "round_float32 x = round_to 24 149 x"

text \<open>\<^verbatim>\<open>x * y\<close> and \<^verbatim>\<open>x + y\<close> of two Python floats.\<close>

definition float_mul :: "pyfloat \<Rightarrow> pyfloat \<Rightarrow> pyfloat" where
  "float_mul x y = round_double (x * y)"

definition float_add :: "pyfloat \<Rightarrow> pyfloat \<Rightarrow> pyfloat" where
  "float_add x y = round_double (x + y)"

text \<open>\<^verbatim>\<open>a * s\<close> for a \<^verbatim>\<open>float32\<close> array \<^verbatim>\<open>a\<close> and a Python float \<^verbatim>\<open>s\<close>: the result array is
  \<^verbatim>\<open>float32\<close>, each element the single-precision product.\<close>

definition float32_mul :: "pyfloat \<Rightarrow> pyfloat \<Rightarrow> pyfloat" where
  "float32_mul x y = round_float32 (x * y)"

text \<open>The conversion of a Python int to a float, as in \<^verbatim>\<open>sample_rate * 0.02\<close>.\<close>

definition int_to_float :: "int \<Rightarrow> exn + pyfloat" where
  "int_to_float i =
     (let f = round_double (of_int i)
      in if 2 ^ 1024 \<le> \<bar>f\<bar> then Inl OverflowError else Inr f)"

text \<open>True division \<^verbatim>\<open>a / b\<close> of two Python ints: the correctly rounded quotient.\<close>

definition int_truediv :: "int \<Rightarrow> int \<Rightarrow> exn + pyfloat" where
  "int_truediv a b =
     (if b = 0 then Inl ZeroDivisionError
      else (let q = round_double (of_int a / of_int b)
            in if 2 ^ 1024 \<le> \<bar>q\<bar> then Inl OverflowError else Inr q))"

text \<open>\<^verbatim>\<open>int(x)\<close> and \<^verbatim>\<open>astype\<close> to an integer type truncate toward zero.\<close>

definition trunc :: "pyfloat \<Rightarrow> int" where
  "trunc x = (if 0 \<le> x then \<lfloor>x\<rfloor> else \<lceil>x\<rceil>)"

subsection \<open>The PCM encoder\<close>

definition clip :: "pyfloat \<Rightarrow> pyfloat \<Rightarrow> pyfloat \<Rightarrow> pyfloat" where
  "clip x lo hi = min (max x lo) hi"

text \<open>\<^verbatim>\<open>astype(int16)\<close>: truncation, then the low 16 bits in two's complement.\<close>

definition astype_int16 :: "pyfloat \<Rightarrow> 16 word" where
  "astype_int16 x = word_of_int (trunc x)"

text \<open>\<^verbatim>\<open>tobytes\<close> of an int16 array in native (little-endian) byte order.\<close>

definition tobytes :: "16 word list \<Rightarrow> byte list" where
  "tobytes ws = concat (map (\<lambda>w. [ucast w, ucast (drop_bit 8 w)]) ws)"

definition float_to_pcm16 :: "pyfloat list \<Rightarrow> byte list" where
  "float_to_pcm16 data =
     (let data = map (\<lambda>x. clip x (-1) 1) data;
          pcm = map astype_int16 (map (\<lambda>x. float32_mul x 32767) data)
      in tobytes pcm)"

subsection \<open>Block size\<close>

text \<open>\<^verbatim>\<open>int(sample_rate * 0.02)\<close>: the literal is the double nearest to 2/100, the sample rate is
  converted to a float, and the double product is truncated.\<close>

definition block_size :: "int \<Rightarrow> exn + int" where
  "block_size sr =
     (case int_to_float sr of
        Inl e \<Rightarrow> Inl e
      | Inr f \<Rightarrow> Inr (trunc (float_mul f (round_double (2 / 100)))))"


section \<open>The capture loop\<close>

subsection \<open>The callback\<close>

text \<open>The variables of \<^verbatim>\<open>_record_to_path\<close> that the nested \<^verbatim>\<open>callback\<close> mutates
  (\<^verbatim>\<open>frames\<close> by \<^verbatim>\<open>append\<close>, the others through \<^verbatim>\<open>nonlocal\<close>).\<close>

record session =
  frames :: "ndarray list"
  silence_duration :: pyfloat
  has_detected_speech :: bool
  recording_finished :: bool

definition initial_session :: session where
  "initial_session =
     \<lparr>frames = [], silence_duration = 0, has_detected_speech = False,
      recording_finished = False\<rparr>"

text \<open>\<^verbatim>\<open>indata[:, 0]\<close>: the first column; an array without columns has no column 0.\<close>

definition column0 :: "ndarray \<Rightarrow> exn + pyfloat list" where
  "column0 a = (if [] \<in> set a then Inl IndexError else Inr (map hd a))"

text \<open>The body of the \<^verbatim>\<open>try\<close> block. An assignment made before a \<^verbatim>\<open>raise\<close> stays made, so
  the result is the state reached together with the exception raised, if any.\<close>

definition vad_logic :: "Recorder \<Rightarrow> vad \<Rightarrow> ndarray \<Rightarrow> int \<Rightarrow> session \<Rightarrow> session \<times> exn option" where
  "vad_logic self v indata frame_count st =
     (case column0 indata of
        Inl e \<Rightarrow> (st, Some e)
      | Inr col \<Rightarrow>
          (case v (float_to_pcm16 col) (sample_rate (recording_config self)) of
             None \<Rightarrow> (st, Some VadError)
           | Some is_speech \<Rightarrow>
               if is_speech then
                 (st\<lparr>has_detected_speech := True, silence_duration := 0\<rparr>, None)
               else if has_detected_speech st then
                 (case int_truediv frame_count (sample_rate (recording_config self)) of
                    Inl e \<Rightarrow> (st, Some e)
                  | Inr d \<Rightarrow>
                      (let st' = st\<lparr>silence_duration := float_add (silence_duration st) d\<rparr>
                       in if of_int (silence_ms_to_stop (vad_config self))
                               \<le> float_mul (silence_duration st') 1000
                          then (st'\<lparr>recording_finished := True\<rparr>, Some CallbackStop)
                          else (st', None)))
               else (st, None)))"

text \<open>The callback: the state it leaves and the exception that escapes it, if any.\<close>

definition callback :: "Recorder \<Rightarrow> ndarray \<Rightarrow> int \<Rightarrow> session \<Rightarrow> session \<times> exn option" where
  "callback self indata frame_count st =
     (let st1 = st\<lparr>frames := frames st @ [indata]\<rparr>
      in case vad self of
           None \<Rightarrow> (st1, None)
         | Some v \<Rightarrow>
             (case vad_logic self v indata frame_count st1 of
                (st2, None) \<Rightarrow> (st2, None)
              | (st2, Some e) \<Rightarrow> if is_Exception e then (st2, None) else (st2, Some e)))"

text \<open>The callback applied to a sequence of delivered blocks, each with
  \<^verbatim>\<open>frame_count = len(indata)\<close>, keeping the state only.\<close>

definition on_frame :: "Recorder \<Rightarrow> session \<Rightarrow> ndarray \<Rightarrow> session" where
  "on_frame self st indata = fst (callback self indata (int (length indata)) st)"

definition run_frames :: "Recorder \<Rightarrow> ndarray list \<Rightarrow> session \<Rightarrow> session" where
  "run_frames self fs st = foldl (on_frame self) st fs"

subsection \<open>The stream and the supervising loop\<close>

text \<open>
  The callback runs on the audio backend's thread while the main thread polls. A run is an
  interleaving of what the two threads do, given as a schedule of events:
  \<^item> \<open>Deliver indata\<close>: the backend calls the callback on one block, if the stream is active;
  \<^item> \<open>Check elapsed\<close>: the main thread evaluates the \<^verbatim>\<open>while\<close> condition with
    \<^verbatim>\<open>time.time() - start_time = elapsed\<close> and, when it holds, the \<^verbatim>\<open>if recording_finished\<close>
    test, then sleeps;
  \<^item> \<open>Raise e\<close>: exception \<open>e\<close> is raised on the main thread inside the \<^verbatim>\<open>with\<close> block (a
    driver error when the stream is opened or while it runs; \<^verbatim>\<open>KeyboardInterrupt\<close> on Ctrl+C).
  An exception that escapes the callback ends callback processing: the stream is no longer
  active.
\<close>

datatype event = Deliver ndarray | Check pyfloat | Raise exn

datatype loop_result = Capturing session bool | Left session | Raised exn session

fun supervise :: "Recorder \<Rightarrow> event list \<Rightarrow> session \<Rightarrow> bool \<Rightarrow> loop_result" where
  "supervise self [] st active = Capturing st active"
| "supervise self (Deliver indata # es) st active =
     (if active then
        (case callback self indata (int (length indata)) st of
           (st', None) \<Rightarrow> supervise self es st' True
         | (st', Some e) \<Rightarrow> supervise self es st' False)
      else supervise self es st active)"
| "supervise self (Check elapsed # es) st active =
     (if active \<and> elapsed < of_int (max_seconds (recording_config self)) then
        (if recording_finished st then Left st else supervise self es st active)
      else Left st)"
| "supervise self (Raise e # es) st active = Raised e st"

subsection \<open>Writing the artifact\<close>

text \<open>What \<^verbatim>\<open>wave\<close> is told to write: the three parameters set and the bytes passed to
  \<^verbatim>\<open>writeframes\<close>.\<close>

record wav_file =
  nchannels :: int
  sampwidth :: int
  framerate :: int
  wav_frames :: "byte list"

record filesys =
  dirs :: "string set"
  files :: "string \<rightharpoonup> wav_file"

datatype 'a result = Returns 'a | Raises exn | Unfinished

definition write_wav :: "Recorder \<Rightarrow> string \<Rightarrow> ndarray \<Rightarrow> filesys \<Rightarrow> unit result \<times> filesys" where
  "write_wav self file_path data fs =
     (if length (concat data) = 0 then (Raises (AudioError ''No audio captured''), fs)
      else
        (let sr = sample_rate (recording_config self);
             ch = channels (recording_config self)
         in case (if ch = 1 then column0 data else Inr (concat data)) of
              Inl e \<Rightarrow> (Raises e, fs)
            | Inr flattened \<Rightarrow>
                (let pcm_data = float_to_pcm16 flattened
                 in (Returns (),
                     fs\<lparr>files := (files fs)(file_path \<mapsto>
                          \<lparr>nchannels = ch, sampwidth = 2, framerate = sr,
                           wav_frames = pcm_data\<rparr>)\<rparr>))))"

fun exn_str :: "exn \<Rightarrow> string" where
  "exn_str (AudioError m) = m"
| "exn_str (PortAudioError m) = m"
| "exn_str _ = []"

text \<open>\<^verbatim>\<open>_record_to_path\<close> over a schedule. The block size is computed first, outside the
  \<^verbatim>\<open>try\<close>; its value is a parameter of the stream and the schedule says what blocks the driver
  delivers. \<open>Unfinished\<close>: the schedule ends while the loop is still polling.\<close>

definition record_to_path :: "Recorder \<Rightarrow> string \<Rightarrow> event list \<Rightarrow> filesys \<Rightarrow> unit result \<times> filesys" where
  "record_to_path self file_path sched fs =
     (case block_size (sample_rate (recording_config self)) of
        Inl e \<Rightarrow> (Raises e, fs)
      | Inr blocksize \<Rightarrow>
          (let finish = (\<lambda>st. write_wav self file_path (concat (frames st)) fs)
           in case supervise self sched initial_session True of
                Capturing st active \<Rightarrow> (Unfinished, fs)
              | Left st \<Rightarrow> finish st
              | Raised e st \<Rightarrow>
                  if e = CallbackStop then finish st
                  else if is_Exception e then
                    (Raises (AudioError (''Failed to capture audio: '' @ exn_str e)), fs)
                  else (Raises e, fs)))"

definition record_once :: "Recorder \<Rightarrow> string option \<Rightarrow> string \<Rightarrow> event list \<Rightarrow> filesys \<Rightarrow> string result \<times> filesys" where
  "record_once self tmp timestamp sched fs =
     (let temp_directory = (case tmp of Some d \<Rightarrow> d | None \<Rightarrow> temp_dir (recording_config self));
          fs1 = fs\<lparr>dirs := insert temp_directory (dirs fs)\<rparr>;
          file_path = temp_directory @ ''/omnivocal-'' @ timestamp @ ''.wav''
      in case record_to_path self file_path sched fs1 of
           (Returns u, fs2) \<Rightarrow> (Returns file_path, fs2)
         | (Raises e, fs2) \<Rightarrow> (Raises e, fs2)
         | (Unfinished, fs2) \<Rightarrow> (Unfinished, fs2))"

subsection \<open>The recording part of the \<^verbatim>\<open>once\<close> command\<close>

text \<open>The installed optional modules: numpy, sounddevice, and \<^verbatim>\<open>webrtcvad.Vad\<close> as a function
  of the aggressiveness.\<close>

record modules =
  numpy :: bool
  sounddevice :: bool
  webrtcvad :: "(int \<Rightarrow> vad) option"

definition Recorder_init :: "modules \<Rightarrow> RecordingConfig \<Rightarrow> VadConfig \<Rightarrow> exn + Recorder" where
  "Recorder_init m rc vc =
     (if \<not> numpy m then Inl (AudioError ''numpy dependency is not installed'')
      else if \<not> sounddevice m then Inl (AudioError ''sounddevice dependency is not installed'')
      else if enabled vc \<and> webrtcvad m = None then
        Inl (AudioError ''webrtcvad dependency is required for VAD but is not installed'')
      else Inr \<lparr>recording_config = rc, vad_config = vc,
                vad = (if enabled vc then map_option (\<lambda>mk. mk (aggressiveness vc)) (webrtcvad m)
                       else None)\<rparr>)"

text \<open>\<^verbatim>\<open>_command_once\<close>. What follows the recording (transcription, clipboard, removal of the
  file) is the parameter \<open>rest\<close>, applied to the recorded path.\<close>

definition command_once ::
  "modules \<Rightarrow> bool \<Rightarrow> string option \<Rightarrow> RecordingConfig \<Rightarrow> VadConfig \<Rightarrow> string \<Rightarrow> event list
     \<Rightarrow> (string \<Rightarrow> filesys \<Rightarrow> int result \<times> filesys) \<Rightarrow> filesys \<Rightarrow> int result \<times> filesys" where
  "command_once m no_vad tmp rc vc timestamp sched rest fs =
     (let vc = vc\<lparr>enabled := \<not> no_vad\<rparr>
      in case Recorder_init m rc vc of
           Inl e \<Rightarrow> (Raises e, fs)
         | Inr recorder \<Rightarrow>
             (case record_once recorder tmp timestamp sched fs of
                (Raises KeyboardInterrupt, fs1) \<Rightarrow> (Returns 1, fs1)
              | (Raises (AudioError msg), fs1) \<Rightarrow> (Returns 1, fs1)
              | (Raises e, fs1) \<Rightarrow> (Raises e, fs1)
              | (Unfinished, fs1) \<Rightarrow> (Unfinished, fs1)
              | (Returns file_path, fs1) \<Rightarrow> rest file_path fs1))"


section \<open>Notions of the specification\<close>

subsection \<open>The PCM encoder as specified\<close>

text \<open>The little-endian byte pair of a 16-bit signed integer \<open>v\<close> in two's complement, and the
  integer a pair stands for.\<close>

definition int16_le :: "int \<Rightarrow> byte list" where
  "int16_le v = [word_of_int (v mod 256), word_of_int (v div 256 mod 256)]"

fun int16_of_le :: "byte list \<Rightarrow> int" where
  "int16_of_le [lo, hi] =
     (let u = uint lo + 256 * uint hi in if u < 32768 then u else u - 65536)"
| "int16_of_le _ = 0"

text \<open>Clipping to [-1, 1] and truncation of a number to an integer, as the specification
  means them.\<close>

definition clamp_unit :: "rat \<Rightarrow> rat" where
  "clamp_unit x = (if x < -1 then -1 else if 1 < x then 1 else x)"

definition toward_zero :: "rat \<Rightarrow> int" where
  "toward_zero r = (if r < 0 then - \<lfloor>- r\<rfloor> else \<lfloor>r\<rfloor>)"

text \<open>\<^verbatim>\<open>ToPCM16\<close> in the specification's words: each sample clipped to [-1, 1], scaled by 32767,
  truncated, one little-endian pair per sample, in input order. The samples are single-precision
  floats and so is the scaled sample: the product is the single-precision one.\<close>

definition ToPCM16 :: "rat list \<Rightarrow> byte list" where
  "ToPCM16 samples =
     concat (map (\<lambda>x. int16_le (toward_zero (round_to 24 149 (clamp_unit x * 32767)))) samples)"


section \<open>Properties\<close>

subsection \<open>Rounding\<close>

lemma rhe_error: "\<bar>of_int (round_half_even y) - y\<bar> \<le> 1 / 2"
proof -
  have "of_int \<lfloor>y\<rfloor> \<le> y" "y < of_int \<lfloor>y\<rfloor> + 1" by linarith+
  then show ?thesis
    unfolding round_half_even_def Let_def by (auto simp: abs_le_iff)
qed

lemma rhe_le: "y \<le> of_int m \<Longrightarrow> round_half_even y \<le> m"
  unfolding round_half_even_def Let_def
  by (auto simp: floor_le_iff)

lemma rhe_ge: "of_int m \<le> y \<Longrightarrow> m \<le> round_half_even y"
proof -
  assume "of_int m \<le> y"
  then have "m \<le> \<lfloor>y\<rfloor>" by (simp add: le_floor_iff)
  then show ?thesis
    unfolding round_half_even_def Let_def by auto
qed

lemma bitlen_pow: "0 < n \<Longrightarrow> (2::int) ^ nat (bitlen n) \<le> 2 * n \<and> n < 2 ^ nat (bitlen n)"
proof -
  assume n: "0 < n"
  then have b: "1 \<le> bitlen n" by (simp add: bitlen_alt_def)
  from bitlen_bounds [OF n] have lo: "2 ^ nat (bitlen n - 1) \<le> n" and hi: "n < 2 ^ nat (bitlen n)"
    by simp_all
  from b have "nat (bitlen n) = Suc (nat (bitlen n - 1))" by simp
  then have "(2::int) ^ nat (bitlen n) = 2 * 2 ^ nat (bitlen n - 1)" by simp
  with lo hi show ?thesis by simp
qed

lemma normal_ulp_pos: "0 < normal_ulp p x"
  by (simp add: normal_ulp_def)

text \<open>The spacing around \<open>x\<close> is that of the binade of \<open>x\<close>.\<close>

lemma normal_ulp_bounds:
  assumes "x \<noteq> 0"
  shows "normal_ulp p x * 2 ^ p \<le> 2 * \<bar>x\<bar>" and "\<bar>x\<bar> < normal_ulp p x * 2 ^ p"
proof -
  have "normal_ulp p x * 2 ^ p \<le> 2 * \<bar>x\<bar> \<and> \<bar>x\<bar> < normal_ulp p x * 2 ^ p"
  proof (cases "1 \<le> \<bar>x\<bar>")
    case True
    define n where "n = \<lfloor>\<bar>x\<bar>\<rfloor>"
    have n: "0 < n" using True by (simp add: n_def)
    have fl: "of_int n \<le> \<bar>x\<bar>" "\<bar>x\<bar> < of_int n + 1" unfolding n_def by linarith+
    define B where "B = (2::int) ^ nat (bitlen n)"
    from bitlen_pow [OF n] have B: "B \<le> 2 * n" "n + 1 \<le> B" by (simp_all add: B_def)
    have u: "normal_ulp p x * 2 ^ p = of_int B"
      using True by (simp add: normal_ulp_def n_def B_def)
    have "rat_of_int B \<le> 2 * of_int n" using B(1) by (metis of_int_le_iff of_int_mult of_int_numeral)
    moreover have "rat_of_int n + 1 \<le> of_int B" using B(2) by (metis of_int_le_iff of_int_add of_int_1)
    ultimately show ?thesis using fl u by linarith
  next
    case False
    define y where "y = 1 / \<bar>x\<bar>"
    have x: "0 < \<bar>x\<bar>" "\<bar>x\<bar> < 1" using assms False by simp_all
    then have y: "1 < y" by (simp add: y_def)
    define m where "m = \<lceil>y\<rceil> - 1"
    have m: "0 < m" using y unfolding m_def by linarith
    have cl: "of_int m < y" "y \<le> of_int m + 1" unfolding m_def by linarith+
    define C where "C = (2::int) ^ nat (bitlen m)"
    from bitlen_pow [OF m] have C: "C \<le> 2 * m" "m + 1 \<le> C" by (simp_all add: C_def)
    have Cpos: "0 < rat_of_int C" by (simp add: C_def)
    have u: "normal_ulp p x * 2 ^ p = 2 / of_int C"
      using False by (simp add: normal_ulp_def m_def y_def C_def)
    have c1: "rat_of_int C \<le> 2 * of_int m" using C(1) by (metis of_int_le_iff of_int_mult of_int_numeral)
    have c2: "rat_of_int m + 1 \<le> of_int C" using C(2) by (metis of_int_le_iff of_int_add of_int_1)
    have xy: "\<bar>x\<bar> * y = 1" using x by (simp add: y_def)
    have "1 \<le> \<bar>x\<bar> * of_int C"
    proof -
      have "y \<le> of_int C" using cl c2 by linarith
      then have "\<bar>x\<bar> * y \<le> \<bar>x\<bar> * of_int C" using x by (simp add: mult_left_mono)
      then show ?thesis using xy by simp
    qed
    moreover have "\<bar>x\<bar> * of_int C < 2"
    proof -
      have "of_int C < 2 * y" using cl c1 by linarith
      then have "\<bar>x\<bar> * of_int C < \<bar>x\<bar> * (2 * y)" using x by (simp add: mult_strict_left_mono)
      then show ?thesis using xy by simp
    qed
    ultimately have "2 / rat_of_int C \<le> 2 * \<bar>x\<bar>" "\<bar>x\<bar> < 2 / rat_of_int C"
      using Cpos by (simp_all add: pos_divide_le_eq pos_less_divide_eq mult.commute)
    then show ?thesis by (simp only: u)
  qed
  then show "normal_ulp p x * 2 ^ p \<le> 2 * \<bar>x\<bar>" and "\<bar>x\<bar> < normal_ulp p x * 2 ^ p" by simp_all
qed

lemma ulp_pos: "0 < ulp p d x"
  using normal_ulp_pos [of p x] by (simp add: ulp_def max_def)

text \<open>Below \<open>2 ^ p\<close> the spacing is the reciprocal of a power of two, so the integers are on the
  grid.\<close>

lemma normal_ulp_recip:
  assumes "x \<noteq> 0" "\<bar>x\<bar> < 2 ^ p"
  shows "\<exists>j. normal_ulp p x = 1 / 2 ^ j"
proof (cases "1 \<le> \<bar>x\<bar>")
  case True
  define b where "b = nat (bitlen \<lfloor>\<bar>x\<bar>\<rfloor>)"
  have u: "normal_ulp p x = 2 ^ b / 2 ^ p" using True by (simp add: normal_ulp_def b_def)
  from normal_ulp_bounds(1) [OF assms(1), of p] have "(2::rat) ^ b \<le> 2 * \<bar>x\<bar>"
    by (simp add: u)
  with assms(2) have "(2::rat) ^ b < 2 ^ Suc p" by simp
  then have "b < Suc p" by (simp only: power_strict_increasing_iff)
  then have "b \<le> p" by simp
  then have "(2::rat) ^ p = 2 ^ b * 2 ^ (p - b)" by (simp add: power_add [symmetric])
  then have "normal_ulp p x = 1 / 2 ^ (p - b)" by (simp add: u)
  then show ?thesis ..
next
  case False
  have "normal_ulp p x = 2 / (2 ^ nat (bitlen (\<lceil>1 / \<bar>x\<bar>\<rceil> - 1)) * 2 ^ p)"
    using False by (simp add: normal_ulp_def)
  moreover have "0 < \<lceil>1 / \<bar>x\<bar>\<rceil> - 1"
  proof -
    have "1 < 1 / \<bar>x\<bar>" using False assms(1) by simp
    then show ?thesis by linarith
  qed
  then have "1 \<le> bitlen (\<lceil>1 / \<bar>x\<bar>\<rceil> - 1)" by (simp add: bitlen_alt_def)
  then obtain c where "nat (bitlen (\<lceil>1 / \<bar>x\<bar>\<rceil> - 1)) = Suc c"
    by (metis Suc_pred' zero_less_nat_eq zless_add1_eq add.commute le_less less_le_trans zero_less_one)
  ultimately have "normal_ulp p x = 1 / 2 ^ (c + p)" by (simp add: power_add)
  then show ?thesis ..
qed

lemma ulp_recip:
  assumes "x \<noteq> 0" "\<bar>x\<bar> < 2 ^ p"
  shows "\<exists>j. ulp p d x = 1 / 2 ^ j"
proof -
  from normal_ulp_recip [OF assms] obtain j where "normal_ulp p x = 1 / 2 ^ j" ..
  then show ?thesis by (auto simp: ulp_def max_def)
qed

lemma round_to_0: "round_to p d 0 = 0"
  by (simp add: round_to_def round_half_even_def)

text \<open>The rounding error is at most half the spacing.\<close>

lemma round_to_error: "\<bar>round_to p d x - x\<bar> \<le> ulp p d x / 2"
proof -
  define u where "u = ulp p d x"
  have u: "0 < u" by (simp add: u_def ulp_pos)
  have "\<bar>of_int (round_half_even (x / u)) - x / u\<bar> * u \<le> 1 / 2 * u"
    using rhe_error [of "x / u"] u by (simp only: mult_right_mono less_imp_le)
  moreover have "\<bar>of_int (round_half_even (x / u)) - x / u\<bar> * u
      = \<bar>of_int (round_half_even (x / u)) * u - x\<bar>"
  proof -
    have "(of_int (round_half_even (x / u)) - x / u) * u
        = of_int (round_half_even (x / u)) * u - x"
      using u by (simp add: left_diff_distrib)
    then have "\<bar>of_int (round_half_even (x / u)) * u - x\<bar>
        = \<bar>of_int (round_half_even (x / u)) - x / u\<bar> * \<bar>u\<bar>"
      by (simp only: abs_mult [symmetric])
    then show ?thesis using u by simp
  qed
  ultimately show ?thesis by (simp add: round_to_def u_def)
qed

text \<open>Rounding is monotone across the integers below \<open>2 ^ p\<close>, which it leaves unchanged.\<close>

lemma round_to_le_int:
  assumes "\<bar>x\<bar> < 2 ^ p" "x \<le> of_int g"
  shows "round_to p d x \<le> of_int g"
proof (cases "x = 0")
  case True
  with assms show ?thesis by (simp add: round_to_0)
next
  case False
  from ulp_recip [OF False assms(1)] obtain j where u: "ulp p d x = 1 / 2 ^ j" ..
  have "x * 2 ^ j \<le> of_int (g * 2 ^ j)" using assms(2) by simp
  then have "round_half_even (x * 2 ^ j) \<le> g * 2 ^ j" by (rule rhe_le)
  then have "rat_of_int (round_half_even (x * 2 ^ j)) \<le> of_int (g * 2 ^ j)"
    by (simp only: of_int_le_iff)
  then show ?thesis by (simp add: round_to_def u pos_divide_le_eq)
qed

lemma round_to_ge_int:
  assumes "\<bar>x\<bar> < 2 ^ p" "of_int g \<le> x"
  shows "of_int g \<le> round_to p d x"
proof (cases "x = 0")
  case True
  with assms show ?thesis by (simp add: round_to_0)
next
  case False
  from ulp_recip [OF False assms(1)] obtain j where u: "ulp p d x = 1 / 2 ^ j" ..
  have "of_int (g * 2 ^ j) \<le> x * 2 ^ j" using assms(2) by simp
  then have "g * 2 ^ j \<le> round_half_even (x * 2 ^ j)" by (rule rhe_ge)
  then have "rat_of_int (g * 2 ^ j) \<le> of_int (round_half_even (x * 2 ^ j))"
    by (simp only: of_int_le_iff)
  then show ?thesis by (simp add: round_to_def u pos_le_divide_eq)
qed

lemma round_to_of_int:
  assumes "\<bar>rat_of_int m\<bar> < 2 ^ p"
  shows "round_to p d (of_int m) = of_int m"
  using round_to_le_int [OF assms, of m d] round_to_ge_int [OF assms, of m d] by simp

text \<open>Evaluation of concrete roundings: the spacing first, then the nearest grid point.\<close>

lemma round_to_grid: "ulp p d x = u \<Longrightarrow> round_to p d x = of_int (round_half_even (x / u)) * u"
  by (simp add: round_to_def)

lemma bitlen_values: "bitlen 1 = 1" "bitlen 49 = 6" "bitlen 16383 = 14" "bitlen 32767 = 15"
  by code_simp+

lemma floor_rat_numeral:
  "\<lfloor>(numeral a :: rat) / numeral b\<rfloor> = numeral a div numeral b"
  "\<lfloor>- ((numeral a :: rat) / numeral b)\<rfloor> = - numeral a div numeral b"
  "\<lceil>(numeral a :: rat) / numeral b\<rceil> = - (- numeral a div numeral b)"
  using floor_divide_of_int_eq [of "numeral a" "numeral b", where ?'a = rat]
    floor_divide_of_int_eq [of "- numeral a" "numeral b", where ?'a = rat]
  by (simp_all add: ceiling_def)

subsection \<open>The PCM encoder\<close>

lemma lo_byte: "(ucast (word_of_int v :: 16 word) :: 8 word) = word_of_int (v mod 256)"
  apply transfer
  apply (simp add: take_bit_eq_mod mod_mod_cancel)
  done

lemma hi_byte:
  "(ucast (drop_bit 8 (word_of_int v :: 16 word)) :: 8 word) = word_of_int (v div 256 mod 256)"
  apply transfer
  apply (simp add: take_bit_eq_mod drop_bit_eq_div)
  subgoal for v
    using zmod_zmult2_eq [of 256 v 256] by simp
  done

lemma tobytes_int16_le: "tobytes (map word_of_int vs) = concat (map int16_le vs)"
  by (induction vs) (simp_all add: tobytes_def int16_le_def lo_byte hi_byte)

lemma trunc_toward_zero: "trunc x = toward_zero x"
  by (auto simp: trunc_def toward_zero_def ceiling_def)

lemma clip_clamp_unit: "clip x (-1) 1 = clamp_unit x"
  by (auto simp: clip_def clamp_unit_def min_def max_def)

lemma toward_zero_bounds: "\<bar>x\<bar> \<le> of_int n \<Longrightarrow> \<bar>toward_zero x\<bar> \<le> n"
  unfolding toward_zero_def
  by (auto simp: abs_le_iff floor_le_iff le_floor_iff) linarith+

lemma scaled_range: "\<bar>round_to 24 149 (clamp_unit x * 32767)\<bar> \<le> 32767"
proof -
  have a: "\<bar>clamp_unit x * 32767\<bar> \<le> 32767"
    unfolding clamp_unit_def by (auto simp: abs_le_iff)
  then have b: "\<bar>clamp_unit x * 32767\<bar> < 2 ^ 24" by simp
  from a have "clamp_unit x * 32767 \<le> of_int 32767" "of_int (- 32767) \<le> clamp_unit x * 32767"
    by (simp_all add: abs_le_iff)
  then have "round_to 24 149 (clamp_unit x * 32767) \<le> of_int 32767"
    "of_int (- 32767) \<le> round_to 24 149 (clamp_unit x * 32767)"
    using b by (simp_all only: round_to_le_int round_to_ge_int)
  then show ?thesis by (simp add: abs_le_iff)
qed

lemma int16_of_le_int16_le:
  assumes "- 32768 \<le> v" "v < 32768"
  shows "int16_of_le (int16_le v) = v"
proof -
  have lo: "uint (word_of_int (v mod 256) :: 8 word) = v mod 256"
    by (simp add: uint_word_of_int take_bit_eq_mod)
  have hi: "uint (word_of_int (v div 256 mod 256) :: 8 word) = v div 256 mod 256"
    by (simp add: uint_word_of_int take_bit_eq_mod)
  have "v mod 256 + 256 * (v div 256 mod 256) = v mod 65536"
    using zmod_zmult2_eq [of 256 v 256] by simp
  moreover have "v mod 65536 = (if 0 \<le> v then v else v + 65536)"
    using assms by (auto simp: mod_pos_pos_trivial) (smt (verit) mod_add_self2 mod_pos_pos_trivial)
  ultimately show ?thesis
    using assms by (simp add: int16_le_def lo hi Let_def)
qed

lemma float_to_pcm16_eq: "float_to_pcm16 xs = ToPCM16 xs"
  using tobytes_int16_le [of "map (\<lambda>x. toward_zero (round_to 24 149 (clamp_unit x * 32767))) xs"]
  by (simp add: float_to_pcm16_def ToPCM16_def astype_int16_def float32_mul_def
      round_float32_def comp_def trunc_toward_zero clip_clamp_unit)

lemma ToPCM16_length: "length (ToPCM16 xs) = 2 * length xs"
  by (induction xs) (simp_all add: ToPCM16_def int16_le_def)

lemma ToPCM16_decode:
  "int16_of_le (ToPCM16 [x]) = toward_zero (round_to 24 149 (clamp_unit x * 32767))"
  using toward_zero_bounds [of "round_to 24 149 (clamp_unit x * 32767)" 32767] scaled_range [of x]
  by (simp add: ToPCM16_def int16_of_le_int16_le abs_le_iff)

lemma float32_values:
  "round_to 24 149 32767 = 32767" "round_to 24 149 (- 32767) = - 32767"
  "round_to 24 149 (32767 / 2) = 32767 / 2" "round_to 24 149 (- (32767 / 2)) = - (32767 / 2)"
  "round_to 24 149 (1073741823 / 1073741824) = 1"
proof -
  show "round_to 24 149 32767 = 32767" using round_to_of_int [of 32767 24 149] by simp
  show "round_to 24 149 (- 32767) = - 32767" using round_to_of_int [of "- 32767" 24 149] by simp
  have "ulp 24 149 (32767 / 2) = 1 / 2 ^ 10"
    by (simp add: ulp_def normal_ulp_def bitlen_values floor_rat_numeral)
  from round_to_grid [OF this] show "round_to 24 149 (32767 / 2) = 32767 / 2"
    by (simp add: round_half_even_def Let_def floor_rat_numeral)
  have "ulp 24 149 (- (32767 / 2)) = 1 / 2 ^ 10"
    by (simp add: ulp_def normal_ulp_def bitlen_values floor_rat_numeral)
  from round_to_grid [OF this] show "round_to 24 149 (- (32767 / 2)) = - (32767 / 2)"
    by (simp add: round_half_even_def Let_def floor_rat_numeral)
  have "ulp 24 149 (1073741823 / 1073741824) = 1 / 2 ^ 24"
    by (simp add: ulp_def normal_ulp_def bitlen_values floor_rat_numeral)
  from round_to_grid [OF this] show "round_to 24 149 (1073741823 / 1073741824) = 1"
    by (simp add: round_half_even_def Let_def floor_rat_numeral)
qed

lemma ToPCM16_values:
  "ToPCM16 [1] = [0xFF, 0x7F]" "ToPCM16 [3 / 2] = [0xFF, 0x7F]"
  "ToPCM16 [- 1] = [0x01, 0x80]" "ToPCM16 [- 2] = [0x01, 0x80]"
  "ToPCM16 [1 / 2] = [0xFF, 0x3F]" "ToPCM16 [- 1 / 2] = [0x01, 0xC0]"
  "ToPCM16 [32769 / 2 ^ 30] = [0x01, 0x00]"
  by (simp_all add: ToPCM16_def clamp_unit_def toward_zero_def int16_le_def float32_values
      floor_rat_numeral)

text \<open>
  Claim C5. For every finite sequence of samples, \<^verbatim>\<open>_float_to_pcm16\<close> returns (it has no failing
  branch) one little-endian 16-bit signed pair per sample, in input order, equal to the sample
  clipped to [-1, 1], scaled by 32767 (in single precision, the precision of the samples) and
  truncated toward zero: it is the specification's \<open>ToPCM16\<close>, the output has two bytes per sample,
  and the pair of a sample decodes to the truncated value, which lies between -32767 and 32767,
  so the conversion to 16 bits never wraps. The encodings of 1.0 and 1.5 are equal, the pair
  \<open>FF 7F\<close> of 32767, and so are those of -1.0 and -2.0, the pair \<open>01 80\<close> of -32767; 0.5 and -0.5
  give 16383 and -16383; the sample \<open>32769 / 2 ^ 30\<close>, the float nearest to 1/32767, gives 1.
\<close>

theorem float_to_pcm16_is_ToPCM16:
  "float_to_pcm16 samples = ToPCM16 samples
   \<and> length (float_to_pcm16 samples) = 2 * length samples
   \<and> int16_of_le (float_to_pcm16 [x]) = toward_zero (round_to 24 149 (clamp_unit x * 32767))
   \<and> \<bar>int16_of_le (float_to_pcm16 [x])\<bar> \<le> 32767
   \<and> float_to_pcm16 [1] = float_to_pcm16 [3 / 2] \<and> float_to_pcm16 [1] = [0xFF, 0x7F]
   \<and> float_to_pcm16 [- 1] = float_to_pcm16 [- 2] \<and> float_to_pcm16 [- 1] = [0x01, 0x80]
   \<and> float_to_pcm16 [1 / 2] = [0xFF, 0x3F] \<and> float_to_pcm16 [- 1 / 2] = [0x01, 0xC0]
   \<and> float_to_pcm16 [32769 / 2 ^ 30] = [0x01, 0x00]"
proof -
  have "\<bar>int16_of_le (ToPCM16 [x])\<bar> \<le> 32767"
    using toward_zero_bounds [of "round_to 24 149 (clamp_unit x * 32767)" 32767] scaled_range [of x]
    by (simp only: ToPCM16_decode)
  then show ?thesis
    by (simp only: float_to_pcm16_eq ToPCM16_length ToPCM16_decode ToPCM16_values simp_thms)
qed

subsection \<open>Block size\<close>

lemma double_0_02: "round_double (2 / 100) = 5764607523034235 / 2 ^ 58"
proof -
  have "ulp 53 1074 (2 / 100) = 1 / 2 ^ 58"
    by (simp add: ulp_def normal_ulp_def bitlen_values floor_rat_numeral)
  from round_to_grid [OF this] show ?thesis
    by (simp add: round_double_def round_half_even_def Let_def floor_rat_numeral)
qed

lemma int_to_float_exact:
  assumes "\<bar>i\<bar> < 2 ^ 53"
  shows "int_to_float i = Inr (of_int i)"
proof -
  have a: "\<bar>rat_of_int i\<bar> < 2 ^ 53"
    using assms by (metis of_int_abs of_int_less_iff of_int_numeral of_int_power)
  then have r: "round_double (of_int i) = of_int i"
    unfolding round_double_def by (rule round_to_of_int)
  have "(2::rat) ^ 53 \<le> 2 ^ 1024" by (rule power_increasing) simp_all
  with a have "\<not> 2 ^ 1024 \<le> \<bar>rat_of_int i\<bar>" by linarith
  then show ?thesis by (simp add: int_to_float_def r Let_def)
qed

lemma ulp_half_rel:
  assumes "1 / 2 ^ d \<le> 2 * \<bar>x\<bar> / 2 ^ p" "x \<noteq> 0"
  shows "ulp p d x / 2 \<le> \<bar>x\<bar> / 2 ^ p"
proof -
  from normal_ulp_bounds(1) [OF assms(2), of p] have "normal_ulp p x \<le> 2 * \<bar>x\<bar> / 2 ^ p"
    by (simp add: pos_le_divide_eq)
  with assms(1) have "ulp p d x \<le> 2 * \<bar>x\<bar> / 2 ^ p" by (simp add: ulp_def)
  then have "ulp p d x / 2 \<le> 2 * \<bar>x\<bar> / 2 ^ p / 2" by (rule divide_right_mono) simp
  then show ?thesis by simp
qed

lemma block_size_div:
  assumes "0 < sr" "sr < 2 ^ 52"
  shows "block_size sr = Inr (sr div 50)"
proof -
  define k where "k = sr div 50"
  define x where "x = rat_of_int sr * (5764607523034235 / 2 ^ 58)"
  define r where "r = round_double x"
  have "rat_of_int sr < of_int (2 ^ 52)" using assms(2) by (simp only: of_int_less_iff)
  then have sr2: "rat_of_int sr < 2 ^ 52" by simp
  have "1 \<le> sr" using assms(1) by simp
  then have "rat_of_int 1 \<le> of_int sr" by (simp only: of_int_le_iff)
  then have sr3: "1 \<le> rat_of_int sr" by simp
  have sr1: "0 < rat_of_int sr" using assms(1) by simp
  note sr = sr1 sr2 sr3
  have k: "50 * k \<le> sr" "sr \<le> 50 * k + 49" "0 \<le> k"
    using assms unfolding k_def by (simp_all add: pos_imp_zdiv_nonneg_iff)
  have kr: "50 * rat_of_int k \<le> of_int sr" "rat_of_int sr \<le> 50 * of_int k + 49"
    using k(1,2) by (metis of_int_le_iff of_int_mult of_int_numeral of_int_add)+
  have "\<bar>sr\<bar> < 2 ^ 53" using assms by simp
  then have conv: "int_to_float sr = Inr (of_int sr)" by (rule int_to_float_exact)
  have xlo: "of_int sr / 50 \<le> x" using sr unfolding x_def by simp
  have xhi: "x \<le> of_int sr / 32" using sr unfolding x_def by simp
  have xpos: "0 < x" "x \<noteq> 0" using sr unfolding x_def by simp_all
  have xabs: "\<bar>x\<bar> < 2 ^ 53" using xhi sr xpos by simp
  have "rat_of_int k \<le> x" using kr xlo by simp
  then have rlo: "of_int k \<le> r" unfolding r_def round_double_def
    using xabs by (intro round_to_ge_int)
  have "1 / 2 ^ 1074 \<le> 2 * \<bar>x\<bar> / 2 ^ 53"
  proof -
    have "(1::rat) / 2 ^ 1074 \<le> 1 / 2 ^ 58" by (simp add: power_increasing divide_left_mono)
    moreover have "1 / 2 ^ 58 \<le> 2 * (1 / 50) / (2::rat) ^ 53" by simp
    moreover have "2 * (1 / 50) / (2::rat) ^ 53 \<le> 2 * \<bar>x\<bar> / 2 ^ 53"
      using xlo sr xpos by (simp add: divide_right_mono)
    ultimately show ?thesis by linarith
  qed
  from ulp_half_rel [OF this xpos(2)] have h: "ulp 53 1074 x / 2 \<le> x / 2 ^ 53" using xpos by simp
  have e: "\<bar>r - x\<bar> \<le> ulp 53 1074 x / 2" unfolding r_def round_double_def by (rule round_to_error)
  have "r - x \<le> \<bar>r - x\<bar>" by (rule abs_ge_self)
  with e h have "r - x \<le> x / 2 ^ 53" by linarith
  then have "r \<le> x * (1 + 1 / 2 ^ 53)" by (simp add: algebra_simps)
  also have "\<dots> = of_int sr * (5764607523034235 / 2 ^ 58 * (1 + 1 / 2 ^ 53))"
    by (simp add: x_def)
  also have "\<dots> \<le> of_int sr * ((1 + 1 / 2 ^ 52) / 50)"
    using sr by (intro mult_left_mono) simp_all
  also have "\<dots> = (of_int sr + of_int sr / 2 ^ 52) / 50" by (simp add: algebra_simps)
  also have "\<dots> < (of_int sr + 1) / 50" using sr by simp
  also have "\<dots> \<le> of_int k + 1" using kr by simp
  finally have rhi: "r < of_int k + 1" .
  from rlo rhi have "\<lfloor>r\<rfloor> = k" by (simp add: floor_eq_iff)
  moreover have "0 \<le> r" using rlo k(3) by (smt (verit) of_int_0_le_iff order_trans)
  ultimately have "trunc r = k" by (simp add: trunc_def)
  moreover have "block_size sr = Inr (trunc r)"
    unfolding block_size_def conv float_mul_def double_0_02 r_def x_def by simp
  ultimately show ?thesis by (simp add: k_def)
qed

text \<open>
  Claim C9 as stated (the block size times 50 is the sample rate, for every positive sample rate)
  fails at 11025 Hz: the block has 220 samples, and 220 * 50 = 11000.
\<close>

theorem block_size_20ms_counterexample:
  "block_size 11025 = Inr 220 \<and> (220::int) * 50 \<noteq> 11025"
  using block_size_div [of 11025] by simp

text \<open>
  Claim C9, amended. For every positive sample rate below \<open>2 ^ 52\<close> the block size is the sample
  rate divided by 50, rounded down: 20 ms of audio less a remainder of under one sample, and
  exactly 20 ms precisely when 50 divides the sample rate. (From \<open>2 ^ 53\<close> on the conversion of
  the sample rate to a float rounds, and the product with the double nearest to 0.02 need not be
  the quotient any more.)
\<close>

theorem block_size_truncates:
  "0 < sr \<Longrightarrow> sr < 2 ^ 52 \<Longrightarrow>
     block_size sr = Inr (sr div 50)
     \<and> sr div 50 * 50 \<le> sr \<and> sr < (sr div 50 + 1) * 50
     \<and> (sr div 50 * 50 = sr \<longleftrightarrow> sr mod 50 = 0)"
  by (simp add: block_size_div) presburger

theorem block_size_truncates_witness:
  "0 < (16000::int) \<and> (16000::int) < 2 ^ 52
   \<and> block_size 16000 = Inr 320 \<and> (320::int) * 50 = 16000
   \<and> block_size 11025 = Inr 220 \<and> (220::int) * 50 \<le> 11025 \<and> (11025::int) < (220 + 1) * 50"
  using block_size_truncates [of 16000] block_size_truncates [of 11025] by simp

end
